theory Spec2Isabelle
  imports
    Complex_Main
    "HOL-Library.Char_ord"
    "HOL-Library.List_Lexorder"
    "HOL-Library.Product_Lexorder"
    "HOL-Library.Option_ord"
    "HOL-Library.AList"
begin

section \<open>pyglottolog.references.bibfiles\_db: the reference database\<close>

text \<open>
  A shallow embedding of \<^verbatim>\<open>src/pyglottolog/references/bibfiles_db.py\<close>. The SQLite
  database is a record of three tables, each a list of rows in insertion order. A query is
  a list comprehension over the tables, \<^verbatim>\<open>ORDER BY\<close> is a stable sort by the
  tuple of the ordering columns, an \<^verbatim>\<open>UPDATE\<close> maps over a table, and a Python
  exception is the \<open>Inl\<close> of a sum.

  Text is \<^typ>\<open>string\<close>, ordered bytewise (SQLite's BINARY collation and Python's
  comparison of \<^verbatim>\<open>str\<close> agree on it). SQL integers are \<^typ>\<open>int\<close>; a nullable
  column is an \<^typ>\<open>'a option\<close> with \<open>None\<close> for NULL, which the order of
  \<open>Option_ord\<close> sorts first, as SQLite does. The floats of \<^verbatim>\<open>distance\<close> are
  modelled by exact rationals.
\<close>

subsection \<open>Module constants\<close>

definition UNION_FIELDS :: "string set" where
  "UNION_FIELDS = {''fn'', ''asjp_name'', ''isbn''}"

definition IGNORE_FIELDS :: "string set" where
  "IGNORE_FIELDS = {''crossref'', ''numnote'', ''glotto_id''}"

definition REF_ID_FIELD :: string where
  "REF_ID_FIELD = ''glottolog_ref_id''"

definition ENTRYTYPE :: string where
  "ENTRYTYPE = ''ENTRYTYPE''"

subsection \<open>Python values\<close>

datatype error =
    AssertionError
  | KeyError
  | IndexError
  | ValueError
  | RuntimeError
  | IntegrityError

text \<open>A \<^verbatim>\<open>dict\<close> from field names to text, in insertion order.\<close>

type_synonym fields = "(string \<times> string) list"

text \<open>\<^verbatim>\<open>sep.join(xs)\<close>.\<close>

fun join :: "string \<Rightarrow> string list \<Rightarrow> string" where
  "join sep [] = []"
| "join sep [x] = x"
| "join sep (x # y # ys) = x @ sep @ join sep (y # ys)"

text \<open>
  Modelled from the spec: \<^verbatim>\<open>unique\<close> of \<^verbatim>\<open>pyglottolog.util\<close> is not among the
  sources. The spec calls what it does de-duplication; it is modelled as the generator that
  yields every element the first time it is seen, with the set of elements seen so far.
\<close>

primrec unique_seen :: "'a set \<Rightarrow> 'a list \<Rightarrow> 'a list" where
  "unique_seen seen [] = []"
| "unique_seen seen (x # xs) =
     (if x \<in> seen then unique_seen seen xs else x # unique_seen (insert x seen) xs)"

definition unique :: "'a list \<Rightarrow> 'a list" where
  "unique xs = unique_seen {} xs"

text \<open>
  \<^verbatim>\<open>itertools.groupby(iterable, key)\<close>: the runs of consecutive elements with equal
  key, each with its key.
\<close>

function groupby :: "('a \<Rightarrow> 'k) \<Rightarrow> 'a list \<Rightarrow> ('k \<times> 'a list) list" where
  "groupby key [] = []"
| "groupby key (x # xs) =
     (key x, x # takeWhile (\<lambda>y. key y = key x) xs)
       # groupby key (dropWhile (\<lambda>y. key y = key x) xs)"
  by pat_completeness auto
termination
  by (relation "measure (\<lambda>(key, xs). length xs)")
     (auto simp: length_dropWhile_le less_Suc_eq_le)




text \<open>
  Modelled from the spec: \<^verbatim>\<open>removesuffix\<close> of \<^verbatim>\<open>pyglottolog._compat\<close> is not
  among the sources. The provenance fields name the contributing sources; the function is
  \<^verbatim>\<open>str.removesuffix\<close>, which drops a non-empty suffix where the text ends with it.
\<close>

definition removesuffix :: "string \<Rightarrow> string \<Rightarrow> string" where
  "removesuffix s suffix =
     (if suffix \<noteq> [] \<and> length suffix \<le> length s
         \<and> drop (length s - length suffix) s = suffix
      then take (length s - length suffix) s else s)"

subsection \<open>The tables\<close>

record file_row =
  f_pk :: int
  f_name :: string
  f_size :: int
  f_mtime :: int
  f_priority :: int

record entry =
  e_pk :: int
  e_file_pk :: int
  e_bibkey :: string
  e_refid :: "int option"
  e_hash :: "string option"
  e_srefid :: "int option"
  e_id :: "int option"

record value_row =
  v_entry_pk :: int
  v_field :: string
  v_value :: string

record db =
  db_files :: "file_row list"
  db_entries :: "entry list"
  db_values :: "value_row list"

text \<open>
  SQL's three-valued \<^verbatim>\<open>=\<close> and \<^verbatim>\<open>!=\<close> in a \<^verbatim>\<open>WHERE\<close> clause: a row
  qualifies only where the comparison is true, and a comparison with NULL is not.
\<close>

definition sql_eq :: "'a option \<Rightarrow> 'a option \<Rightarrow> bool" where
  "sql_eq a b = (case (a, b) of (Some x, Some y) \<Rightarrow> x = y | _ \<Rightarrow> False)"

definition sql_ne :: "'a option \<Rightarrow> 'a option \<Rightarrow> bool" where
  "sql_ne a b = (case (a, b) of (Some x, Some y) \<Rightarrow> x \<noteq> y | _ \<Rightarrow> False)"

subsection \<open>Merge view\<close>

text \<open>
  \<^verbatim>\<open>BaseDatabase._merged_entry\<close>. A group is a list of fields, each with its
  \<^verbatim>\<open>(value, filename, bibkey)\<close> triples in the order of the query. The dict
  comprehension goes through the group in order; \<^verbatim>\<open>values[0][0]\<close> of an empty list
  is an \<^verbatim>\<open>IndexError\<close>.
\<close>

type_synonym grp = "(string \<times> (string \<times> string \<times> string) list) list"

fun merged_fields :: "string set \<Rightarrow> string set \<Rightarrow> string \<Rightarrow> grp \<Rightarrow> fields \<Rightarrow> error + fields" where
  "merged_fields un ign sep [] d = Inr d"
| "merged_fields un ign sep ((field, vs) # rest) d =
     (if field \<in> ign then merged_fields un ign sep rest d
      else if field \<in> un
        then merged_fields un ign sep rest
               (AList.update field (join sep (unique (map fst vs))) d)
      else (case vs of
              [] \<Rightarrow> Inl IndexError
            | (vl, _, _) # _ \<Rightarrow> merged_fields un ign sep rest (AList.update field vl d)))"

definition src_of :: "grp \<Rightarrow> string list" where
  "src_of g = sort (remdups [removesuffix filename ''.bib''. (_, vs) \<leftarrow> g, (_, filename, _) \<leftarrow> vs])"

definition srctrickle_of :: "grp \<Rightarrow> string list" where
  "srctrickle_of g =
     sort (remdups [removesuffix filename ''.bib'' @ ''#'' @ bibkey.
                      (_, vs) \<leftarrow> g, (_, filename, bibkey) \<leftarrow> vs])"

text \<open>The result for \<^verbatim>\<open>raw=True\<close>: the fields with the two provenance fields.\<close>

definition merged_entry_raw :: "grp \<Rightarrow> error + fields" where
  "merged_entry_raw g =
     (case merged_fields UNION_FIELDS IGNORE_FIELDS '', '' g [] of
        Inl e \<Rightarrow> Inl e
      | Inr d \<Rightarrow>
          Inr (AList.update ''srctrickle'' (join '', '' (srctrickle_of g))
                (AList.update ''src'' (join '', '' (src_of g)) d)))"

text \<open>
  The result for \<^verbatim>\<open>raw=False\<close>: \<^verbatim>\<open>fields.pop(ENTRYTYPE)\<close> splits the type tag
  off, and is a \<^verbatim>\<open>KeyError\<close> where there is none.
\<close>

definition merged_entry :: "grp \<Rightarrow> error + (string \<times> fields)" where
  "merged_entry g =
     (case merged_entry_raw g of
        Inl e \<Rightarrow> Inl e
      | Inr d \<Rightarrow>
          (case map_of d ENTRYTYPE of
             None \<Rightarrow> Inl KeyError
           | Some entrytype \<Rightarrow> Inr (entrytype, AList.delete ENTRYTYPE d)))"

text \<open>
  \<^verbatim>\<open>Indexable._merged_entrygrp\<close>. The key is an \<^verbatim>\<open>int\<close>, compared with
  \<^verbatim>\<open>Entry.refid\<close>, or a \<^verbatim>\<open>str\<close>, compared with \<^verbatim>\<open>Entry.hash\<close>. The rows
  are those of \<^verbatim>\<open>Entry JOIN File JOIN Value\<close>, ordered by field, descending file
  priority, file name and bibkey.
\<close>

datatype key = RefId int | Hash string

fun key_matches :: "key \<Rightarrow> entry \<Rightarrow> bool" where
  "key_matches (RefId r) e = (e_refid e = Some r)"
| "key_matches (Hash h) e = (e_hash e = Some h)"

type_synonym value_join = "string \<times> int \<times> string \<times> string \<times> string"

text \<open>
  The rows of the join that satisfy the condition on the entry, each as \<open>(field,
  - priority, filename, bibkey, value)\<close>, and the four columns they are ordered by.
\<close>

definition joined_values :: "db \<Rightarrow> (entry \<Rightarrow> bool) \<Rightarrow> value_join list" where
  "joined_values d cond =
     [(v_field v, - f_priority f, f_name f, e_bibkey e, v_value v).
        e \<leftarrow> db_entries d, f \<leftarrow> db_files d, f_pk f = e_file_pk e,
        v \<leftarrow> db_values d, v_entry_pk v = e_pk e, cond e]"

definition order_by :: "value_join \<Rightarrow> string \<times> int \<times> string \<times> string" where
  "order_by r = (case r of (field, neg_priority, filename, bibkey, vl) \<Rightarrow>
     (field, neg_priority, filename, bibkey))"

definition select_values :: "db \<Rightarrow> (entry \<Rightarrow> bool) \<Rightarrow> value_join list" where
  "select_values d cond = sort_key order_by (joined_values d cond)"

definition field_groups :: "value_join list \<Rightarrow> grp" where
  "field_groups rows =
     [(field, [(vl, filename, bibkey). (_, _, filename, bibkey, vl) \<leftarrow> g]).
        (field, g) \<leftarrow> groupby fst rows]"

definition merged_entrygrp :: "db \<Rightarrow> key \<Rightarrow> error + fields" where
  "merged_entrygrp d k =
     (let g = field_groups (select_values d (key_matches k))
      in if g = [] then Inl KeyError else merged_entry_raw g)"

subsection \<open>Distance\<close>














subsection \<open>Assertions on the entry table\<close>


definition allid :: "db \<Rightarrow> bool" where
  "allid d = (\<not> (\<exists>e \<in> set (db_entries d). e_id e = None))"

text \<open>
  \<^verbatim>\<open>Entry.onetoone\<close>. Its second condition compares \<^verbatim>\<open>other.id\<close>, an integer
  column, with \<^verbatim>\<open>cls.hash\<close>, a text column. What the engine makes of an integer and a
  text that are both not NULL is the parameter \<open>int_eq_text\<close>.
\<close>

definition sql_eq_id_hash :: "(int \<Rightarrow> string \<Rightarrow> bool) \<Rightarrow> int option \<Rightarrow> string option \<Rightarrow> bool" where
  "sql_eq_id_hash int_eq_text a b =
     (case (a, b) of (Some i, Some h) \<Rightarrow> int_eq_text i h | _ \<Rightarrow> False)"

definition onetoone :: "(int \<Rightarrow> string \<Rightarrow> bool) \<Rightarrow> db \<Rightarrow> bool" where
  "onetoone int_eq_text d =
     (\<not> (\<exists>cls \<in> set (db_entries d). \<exists>other \<in> set (db_entries d).
            (sql_eq (e_hash other) (e_hash cls) \<and> sql_ne (e_id other) (e_id cls))
          \<or> (sql_eq_id_hash int_eq_text (e_id other) (e_hash cls)
               \<and> sql_ne (e_hash other) (e_hash cls))))"

subsection \<open>The Resolver\<close>
























definition enumerate_from :: "int \<Rightarrow> 'a list \<Rightarrow> (int \<times> 'a) list" where
  "enumerate_from start xs = zip (map (\<lambda>i. start + int i) [0..<length xs]) xs"

definition update_new_entry :: "int \<times> string option \<Rightarrow> entry \<Rightarrow> entry" where
  "update_new_entry p e = (if sql_eq (e_hash e) (snd p) then e\<lparr>e_id := Some (fst p)\<rparr> else e)"

definition update_new :: "int \<times> string option \<Rightarrow> db \<Rightarrow> db" where
  "update_new p d = d\<lparr>db_entries := map (update_new_entry p) (db_entries d)\<rparr>"



subsection \<open>Invariants of the Resolver\<close>




subsection \<open>Example databases\<close>


text \<open>
  Two files and five entries: refid 10 is carried by entries with two hashes (a split),
  hash \<open>h1\<close> by entries with refids 10 and 11 and by one without a refid, and hash
  \<open>h3\<close> by a new entry only.
\<close>

definition ex_files :: "file_row list" where
  "ex_files =
     [\<lparr>f_pk = 1, f_name = ''a.bib'', f_size = 10, f_mtime = 0, f_priority = 2\<rparr>,
      \<lparr>f_pk = 2, f_name = ''b.bib'', f_size = 20, f_mtime = 0, f_priority = 1\<rparr>]"


definition ex_entry :: "int \<Rightarrow> int \<Rightarrow> string \<Rightarrow> int option \<Rightarrow> string \<Rightarrow> int option \<Rightarrow> int option \<Rightarrow> entry" where
  "ex_entry pk file_pk bibkey refid h srefid new_id =
     \<lparr>e_pk = pk, e_file_pk = file_pk, e_bibkey = bibkey, e_refid = refid, e_hash = Some h,
      e_srefid = srefid, e_id = new_id\<rparr>"









subsection \<open>Members of a merged field\<close>

text \<open>
  The order of the members of one field in the merge view: descending file priority, then
  file name, then bibkey.
\<close>

definition member_order :: "value_join \<Rightarrow> int \<times> string \<times> string" where
  "member_order r = (case r of (field, neg_priority, filename, bibkey, vl) \<Rightarrow>
     (neg_priority, filename, bibkey))"

definition member_value :: "value_join \<Rightarrow> string" where
  "member_value r = (case r of (field, neg_priority, filename, bibkey, vl) \<Rightarrow> vl)"

text \<open>
  Two entries with one hash, from the file of priority 2 and the file of priority 1, with
  a union field, an ignored field and a field of the default policy.
\<close>

definition ex_union :: db where
  "ex_union =
     \<lparr>db_files = ex_files,
      db_entries =
        [ex_entry 1 2 ''k2'' None ''h'' None None,
         ex_entry 2 1 ''k1'' None ''h'' None None],
      db_values =
        [\<lparr>v_entry_pk = 1, v_field = ''ENTRYTYPE'', v_value = ''misc''\<rparr>,
         \<lparr>v_entry_pk = 1, v_field = ''isbn'', v_value = ''a''\<rparr>,
         \<lparr>v_entry_pk = 1, v_field = ''title'', v_value = ''Second''\<rparr>,
         \<lparr>v_entry_pk = 1, v_field = ''crossref'', v_value = ''c''\<rparr>,
         \<lparr>v_entry_pk = 2, v_field = ''ENTRYTYPE'', v_value = ''book''\<rparr>,
         \<lparr>v_entry_pk = 2, v_field = ''isbn'', v_value = ''z''\<rparr>,
         \<lparr>v_entry_pk = 2, v_field = ''title'', v_value = ''First''\<rparr>]\<rparr>"

definition ex_union_view :: fields where
  "ex_union_view =
     [(''ENTRYTYPE'', ''book''), (''isbn'', ''z, a''), (''title'', ''First''),
      (''src'', ''a, b''), (''srctrickle'', ''a#k1, b#k2'')]"

subsection \<open>The Importer\<close>

text \<open>
  Modelled from the spec: the \<^verbatim>\<open>BibFile\<close> objects of
  \<^verbatim>\<open>pyglottolog.references.bibfiles\<close> are not among the sources. The Importer reads
  from each its file name, size, modification time and priority, and the records it
  iterates over, each a key, a type tag and an ordered map from field names to values.
\<close>

record bibentry =
  be_key :: string
  be_type :: string
  be_fields :: fields

record bibfile =
  bf_name :: string
  bf_size :: int
  bf_mtime :: int
  bf_priority :: int
  bf_entries :: "bibentry list"

text \<open>
  \<^verbatim>\<open>lastrowid\<close> of an insert into a table with an integer primary key: one more
  than the greatest key of the table, \<open>1\<close> in an empty table.
\<close>

definition lastrowid :: "int list \<Rightarrow> int" where
  "lastrowid pks = (case pks of [] \<Rightarrow> 1 | pk # rest \<Rightarrow> Max (set (pk # rest)) + 1)"

text \<open>
  The three inserts, each with the constraints of its table: an insert that violates one
  raises \<^verbatim>\<open>IntegrityError\<close>. The refid column has integer affinity: the text of the
  field is stored as the integer it reads as, and the reading is the parameter
  \<open>as_integer\<close>.
\<close>

definition insert_file :: "string \<times> int \<times> int \<times> int \<Rightarrow> db \<Rightarrow> error + (int \<times> db)" where
  "insert_file p d = (case p of (name, sz, mtime, priority) \<Rightarrow>
     if name = [] \<or> name \<in> f_name ` set (db_files d) \<or> sz \<le> 0 then Inl IntegrityError
     else let pk = lastrowid (map f_pk (db_files d)) in
       Inr (pk, d\<lparr>db_files := db_files d @
         [\<lparr>f_pk = pk, f_name = name, f_size = sz, f_mtime = mtime, f_priority = priority\<rparr>]\<rparr>))"

definition insert_entry :: "int \<times> string \<times> int option \<Rightarrow> db \<Rightarrow> error + (int \<times> db)" where
  "insert_entry p d = (case p of (file_pk, bibkey, refid) \<Rightarrow>
     if bibkey = [] \<or> (file_pk, bibkey) \<in> (\<lambda>e. (e_file_pk e, e_bibkey e)) ` set (db_entries d)
        \<or> (case refid of None \<Rightarrow> False | Some r \<Rightarrow> r \<le> 0)
     then Inl IntegrityError
     else let pk = lastrowid (map e_pk (db_entries d)) in
       Inr (pk, d\<lparr>db_entries := db_entries d @
         [\<lparr>e_pk = pk, e_file_pk = file_pk, e_bibkey = bibkey, e_refid = refid,
            e_hash = None, e_srefid = None, e_id = None\<rparr>]\<rparr>))"

fun insert_values :: "(int \<times> string \<times> string) list \<Rightarrow> db \<Rightarrow> error + db" where
  "insert_values [] d = Inr d"
| "insert_values ((entry_pk, field, vl) # rest) d =
     (if field = [] \<or> (entry_pk, field) \<in> (\<lambda>v. (v_entry_pk v, v_field v)) ` set (db_values d)
      then Inl IntegrityError
      else insert_values rest
             (d\<lparr>db_values := db_values d @
                 [\<lparr>v_entry_pk = entry_pk, v_field = field, v_value = vl\<rparr>]\<rparr>))"

text \<open>\<^verbatim>\<open>import_bibfiles\<close>: the body of the inner loop, the inner loop and the outer loop.\<close>

definition import_entry :: "(string \<Rightarrow> int) \<Rightarrow> int \<Rightarrow> bibentry \<Rightarrow> db \<Rightarrow> error + db" where
  "import_entry as_integer file_pk e d =
     (case insert_entry (file_pk, be_key e, map_option as_integer (map_of (be_fields e) REF_ID_FIELD)) d of
        Inl err \<Rightarrow> Inl err
      | Inr (entry_pk, d') \<Rightarrow>
          insert_values [(entry_pk, field, vl). (field, vl) \<leftarrow> (ENTRYTYPE, be_type e) # be_fields e] d')"

fun import_entries :: "(string \<Rightarrow> int) \<Rightarrow> int \<Rightarrow> bibentry list \<Rightarrow> db \<Rightarrow> error + db" where
  "import_entries as_integer file_pk [] d = Inr d"
| "import_entries as_integer file_pk (e # es) d =
     (case import_entry as_integer file_pk e d of
        Inl err \<Rightarrow> Inl err
      | Inr d' \<Rightarrow> import_entries as_integer file_pk es d')"

fun import_bibfiles :: "(string \<Rightarrow> int) \<Rightarrow> bibfile list \<Rightarrow> db \<Rightarrow> error + db" where
  "import_bibfiles as_integer [] d = Inr d"
| "import_bibfiles as_integer (b # bs) d =
     (case insert_file (bf_name b, bf_size b, bf_mtime b, bf_priority b) d of
        Inl err \<Rightarrow> Inl err
      | Inr (file_pk, d') \<Rightarrow>
          (case import_entries as_integer file_pk (bf_entries b) d' of
             Inl err \<Rightarrow> Inl err
           | Inr d'' \<Rightarrow> import_bibfiles as_integer bs d''))"

definition empty_db :: db where
  "empty_db = \<lparr>db_files = [], db_entries = [], db_values = []\<rparr>"

subsection \<open>Windows\<close>

text \<open>
  \<^verbatim>\<open>Result.partitions(size)\<close>: the rows in lists of \<open>size\<close>, the last one shorter
  where they do not divide. The source calls it with a positive size only; for \<open>0\<close> the
  model has no partition.
\<close>

function partitions :: "nat \<Rightarrow> 'a list \<Rightarrow> 'a list list" where
  "partitions n xs = (if n = 0 \<or> xs = [] then [] else take n xs # partitions n (drop n xs))"
  by pat_completeness auto
termination
  by (relation "measure (\<lambda>(n, xs). length xs)") auto

text \<open>The pair \<^verbatim>\<open>keys[0], keys[-1]\<close> of every partition.\<close>

definition first_last :: "'a list list \<Rightarrow> ('a \<times> 'a) list" where
  "first_last parts = [(k, last (k # ks)). k # ks \<leftarrow> parts]"

text \<open>
  \<^verbatim>\<open>Entry.windowed\<close>: the distinct values of the key column in ascending order, NULL
  first, cut into partitions. The column is given by its selector.
\<close>

definition windowed :: "db \<Rightarrow> (entry \<Rightarrow> 'k::linorder) \<Rightarrow> nat \<Rightarrow> ('k \<times> 'k) list" where
  "windowed d key_column n = first_last (partitions n (sort (remdups (map key_column (db_entries d)))))"

text \<open>\<^verbatim>\<open>BETWEEN\<close> on nullable integers: true only where none of the three is NULL.\<close>

definition sql_between :: "int option \<Rightarrow> int option \<Rightarrow> int option \<Rightarrow> bool" where
  "sql_between x lo hi =
     (case (x, lo, hi) of (Some i, Some l, Some h) \<Rightarrow> l \<le> i \<and> i \<le> h | _ \<Rightarrow> False)"

subsection \<open>Iteration\<close>

text \<open>
  \<^verbatim>\<open>BaseDatabase.__iter__\<close>. A row of \<^verbatim>\<open>select_values\<close> is \<open>(id, field,
  - priority, filename, bibkey, hash, value)\<close>, the first five the columns of the ordering.
  The rows of every window are grouped by id and hash, and the rows of a group by field.
\<close>

type_synonym iter_row = "int option \<times> string \<times> int \<times> string \<times> string \<times> string option \<times> string"

definition iter_order :: "iter_row \<Rightarrow> int option \<times> string \<times> int \<times> string \<times> string" where
  "iter_order r = (case r of (i, field, neg_priority, filename, bibkey, h, vl) \<Rightarrow>
     (i, field, neg_priority, filename, bibkey))"

definition id_hash :: "iter_row \<Rightarrow> int option \<times> string option" where
  "id_hash r = (case r of (i, field, neg_priority, filename, bibkey, h, vl) \<Rightarrow> (i, h))"

definition iter_field :: "iter_row \<Rightarrow> string" where
  "iter_field r = (case r of (i, field, neg_priority, filename, bibkey, h, vl) \<Rightarrow> field)"

definition iter_joined :: "db \<Rightarrow> int option \<Rightarrow> int option \<Rightarrow> iter_row list" where
  "iter_joined d lo hi =
     [(e_id e, v_field v, - f_priority f, f_name f, e_bibkey e, e_hash e, v_value v).
        e \<leftarrow> db_entries d, f \<leftarrow> db_files d, f_pk f = e_file_pk e,
        v \<leftarrow> db_values d, v_entry_pk v = e_pk e, sql_between (e_id e) lo hi]"

definition iter_select :: "db \<Rightarrow> int option \<Rightarrow> int option \<Rightarrow> iter_row list" where
  "iter_select d lo hi = sort_key iter_order (iter_joined d lo hi)"

definition iter_fields :: "iter_row list \<Rightarrow> grp" where
  "iter_fields g =
     [(field, [(vl, filename, bibkey). (_, _, _, filename, bibkey, _, vl) \<leftarrow> fg]).
        (field, fg) \<leftarrow> groupby iter_field g]"

definition iter_window :: "db \<Rightarrow> int option \<times> int option \<Rightarrow> ((int option \<times> string option) \<times> grp) list" where
  "iter_window d w =
     [(k, iter_fields g). (k, g) \<leftarrow> groupby id_hash (iter_select d (fst w) (snd w))]"

definition iter :: "(int \<Rightarrow> string \<Rightarrow> bool) \<Rightarrow> db \<Rightarrow> nat \<Rightarrow> error + ((int option \<times> string option) \<times> grp) list" where
  "iter int_eq_text d chunksize =
     (if \<not> allid d then Inl AssertionError
      else if \<not> onetoone int_eq_text d then Inl AssertionError
      else Inr (concat (map (iter_window d) (windowed d e_id chunksize))))"

subsection \<open>The Fingerprint Generator\<close>

text \<open>
  \<^verbatim>\<open>generate_hashes\<close>. The tokenizer \<^verbatim>\<open>wrds\<close> and the fingerprint
  \<^verbatim>\<open>keyid\<close> of \<^verbatim>\<open>libmonster\<close> are parameters; the \<^verbatim>\<open>Counter\<close> of the
  title words is given to \<^verbatim>\<open>keyid\<close> as the function that counts a word in the list of
  all tokens.
\<close>

definition select_titles :: "db \<Rightarrow> string list" where
  "select_titles d = [v_value v. v \<leftarrow> db_values d, v_field v = ''title'']"

definition title_words :: "(string \<Rightarrow> string list) \<Rightarrow> db \<Rightarrow> string list" where
  "title_words wrds d =
     concat [wrds title. titles \<leftarrow> partitions 10000 (select_titles d), title \<leftarrow> titles]"

text \<open>
  \<^verbatim>\<open>windowed_entries\<close>: for every file in the order of the names, the first and the
  last of every \<open>chunksize\<close> primary keys of its entries.
\<close>

definition windowed_entries :: "db \<Rightarrow> nat \<Rightarrow> (int \<times> int) list" where
  "windowed_entries d chunksize =
     concat [first_last (partitions chunksize (sort [e_pk e. e \<leftarrow> db_entries d, e_file_pk e = file_pk])).
               file_pk \<leftarrow> map f_pk (sort_key f_name (db_files d))]"

text \<open>
  \<^verbatim>\<open>select_bfv\<close>: the values other than the type tag of the entries with a primary
  key in the window, ordered by it.
\<close>

definition select_bfv :: "db \<Rightarrow> int \<Rightarrow> int \<Rightarrow> (int \<times> string \<times> string) list" where
  "select_bfv d lo hi =
     sort_key fst
       [(e_pk e, v_field v, v_value v).
          v \<leftarrow> db_values d, e \<leftarrow> db_entries d, e_pk e = v_entry_pk v,
          lo \<le> e_pk e \<and> e_pk e \<le> hi, v_field v \<noteq> ENTRYTYPE]"

text \<open>\<^verbatim>\<open>{r.field: r.value for r in grp}\<close>.\<close>

definition fields_of_rows :: "(int \<times> string \<times> string) list \<Rightarrow> fields" where
  "fields_of_rows rows = foldl (\<lambda>acc r. AList.update (fst (snd r)) (snd (snd r)) acc) [] rows"

text \<open>
  \<^verbatim>\<open>update_entry\<close>, one \<^verbatim>\<open>UPDATE\<close> for every pair of a hash and a primary key;
  the column does not take the empty text.
\<close>

definition update_hash_entry :: "string \<times> int \<Rightarrow> entry \<Rightarrow> entry" where
  "update_hash_entry p e = (if e_pk e = snd p then e\<lparr>e_hash := Some (fst p)\<rparr> else e)"

fun update_entry :: "(string \<times> int) list \<Rightarrow> db \<Rightarrow> error + db" where
  "update_entry [] d = Inr d"
| "update_entry (p # ps) d =
     (if fst p = [] then Inl IntegrityError
      else update_entry ps (d\<lparr>db_entries := map (update_hash_entry p) (db_entries d)\<rparr>))"

fun hash_windows :: "(fields \<Rightarrow> (string \<Rightarrow> nat) \<Rightarrow> string) \<Rightarrow> string list \<Rightarrow> (int \<times> int) list \<Rightarrow> db \<Rightarrow> error + db" where
  "hash_windows keyid tokens [] d = Inr d"
| "hash_windows keyid tokens (w # ws) d =
     (case update_entry
             [(keyid (fields_of_rows g) (count_list tokens), entry_pk).
                (entry_pk, g) \<leftarrow> groupby fst (select_bfv d (fst w) (snd w))] d of
        Inl err \<Rightarrow> Inl err
      | Inr d' \<Rightarrow> hash_windows keyid tokens ws d')"

definition generate_hashes :: "(string \<Rightarrow> string list) \<Rightarrow> (fields \<Rightarrow> (string \<Rightarrow> nat) \<Rightarrow> string) \<Rightarrow> db \<Rightarrow> error + db" where
  "generate_hashes wrds keyid d =
     hash_windows keyid (title_words wrds d) (windowed_entries d 500) d"

subsection \<open>Trickle-back\<close>

text \<open>
  \<^verbatim>\<open>File.same_as\<close>: the dict of the files on disk and the dict of the files in the
  database, each from the name to the size and the modification time, are equal. In a dict
  comprehension a later item with the same key replaces the earlier one.
\<close>

definition dict_eq :: "('k \<times> 'v) list \<Rightarrow> ('k \<times> 'v) list \<Rightarrow> bool" where
  "dict_eq a b =
     (set (map fst a) = set (map fst b)
      \<and> (\<forall>k \<in> set (map fst a). map_of (rev a) k = map_of (rev b) k))"

definition same_as :: "db \<Rightarrow> bibfile list \<Rightarrow> bool" where
  "same_as d bibfiles =
     dict_eq [(bf_name b, (bf_size b, bf_mtime b)). b \<leftarrow> bibfiles]
             [(f_name f, (f_size f, f_mtime f)). f \<leftarrow> sort_key f_name (db_files d)]"

definition is_uptodate :: "db \<Rightarrow> bibfile list \<Rightarrow> bool" where
  "is_uptodate d bibfiles = same_as d bibfiles"

text \<open>\<^verbatim>\<open>Entry.id != coalesce(Entry.refid, -1)\<close>.\<close>

definition changed :: "entry \<Rightarrow> bool" where
  "changed e = sql_ne (e_id e) (Some (case e_refid e of None \<Rightarrow> - 1 | Some r \<Rightarrow> r))"

definition select_files :: "db \<Rightarrow> (int \<times> string) list" where
  "select_files d =
     sort_key snd [(f_pk f, f_name f). f \<leftarrow> db_files d,
                     \<exists>e \<in> set (db_entries d). e_file_pk e = f_pk f \<and> changed e]"

text \<open>
  \<^verbatim>\<open>select_changed\<close>: the bibkey, the refid and the id of the changed entries of a
  file, both cast to text by \<open>text_of\<close>, ordered by the bibkey in lower case.
\<close>

definition select_changed :: "(string \<Rightarrow> string) \<Rightarrow> (int \<Rightarrow> string) \<Rightarrow> db \<Rightarrow> int \<Rightarrow> (string \<times> string option \<times> string) list" where
  "select_changed lower text_of d file_pk =
     sort_key (\<lambda>r. lower (fst r))
       [(e_bibkey e, map_option text_of (e_refid e), text_of new).
          e \<leftarrow> db_entries d, e_file_pk e = file_pk, changed e, Some new \<leftarrow> [e_id e]]"

text \<open>
  The loop over the changed entries of one file, on the entries loaded from it:
  \<^verbatim>\<open>entries[bibkey]\<close> is a \<^verbatim>\<open>KeyError\<close> where the key is missing, the value popped
  from the fields is asserted to be the refid, and the new id is set as the last field.
\<close>

fun trickle_entries :: "(string \<times> string option \<times> string) list \<Rightarrow> bibentry list \<Rightarrow> error + bibentry list" where
  "trickle_entries [] entries = Inr entries"
| "trickle_entries ((bibkey, refid, new) # rest) entries =
     (case find (\<lambda>e. be_key e = bibkey) entries of
        None \<Rightarrow> Inl KeyError
      | Some e \<Rightarrow>
          if map_of (be_fields e) REF_ID_FIELD \<noteq> refid then Inl AssertionError
          else trickle_entries rest
                 (map (\<lambda>x. if be_key x = bibkey
                            then x\<lparr>be_fields := AList.delete REF_ID_FIELD (be_fields x) @ [(REF_ID_FIELD, new)]\<rparr>
                            else x) entries))"

text \<open>
  The loop over the files. \<^verbatim>\<open>bf.save(entries)\<close> writes the file; what it leaves on
  disk is the parameter \<open>save\<close>. A failure leaves the files saved before it as they were
  saved.
\<close>

fun trickle_files :: "(string \<Rightarrow> string) \<Rightarrow> (int \<Rightarrow> string) \<Rightarrow> (bibfile \<Rightarrow> bibentry list \<Rightarrow> bibfile) \<Rightarrow> db \<Rightarrow> (int \<times> string) list \<Rightarrow> bibfile list \<Rightarrow> error option \<times> bibfile list" where
  "trickle_files lower text_of save d [] bibfiles = (None, bibfiles)"
| "trickle_files lower text_of save d ((file_pk, filename) # rest) bibfiles =
     (case find (\<lambda>b. bf_name b = filename) bibfiles of
        None \<Rightarrow> (Some KeyError, bibfiles)
      | Some bf \<Rightarrow>
          (case trickle_entries (select_changed lower text_of d file_pk) (bf_entries bf) of
             Inl err \<Rightarrow> (Some err, bibfiles)
           | Inr entries \<Rightarrow>
               trickle_files lower text_of save d rest
                 (map (\<lambda>b. if bf_name b = filename then save bf entries else b) bibfiles)))"

text \<open>
  \<^verbatim>\<open>Exportable.trickle\<close>: the outcome, the database and the files after it. The
  database is only read.
\<close>

definition trickle :: "(string \<Rightarrow> string) \<Rightarrow> (int \<Rightarrow> string) \<Rightarrow> (bibfile \<Rightarrow> bibentry list \<Rightarrow> bibfile) \<Rightarrow> db \<Rightarrow> bibfile list \<Rightarrow> error option \<times> db \<times> bibfile list" where
  "trickle lower text_of save d bibfiles =
     (if \<not> allid d then (Some AssertionError, d, bibfiles)
      else if \<not> is_uptodate d bibfiles then (Some RuntimeError, d, bibfiles)
      else case trickle_files lower text_of save d (select_files d) bibfiles of
             (outcome, bibfiles') \<Rightarrow> (outcome, d, bibfiles'))"

section \<open>Properties\<close>

subsection \<open>Distance\<close>















subsection \<open>New ids\<close>




lemma files_fold_update_new: "db_files (fold update_new ps d) = db_files d"
  by (induction ps arbitrary: d) (simp_all add: update_new_def)

lemma values_fold_update_new: "db_values (fold update_new ps d) = db_values d"
  by (induction ps arbitrary: d) (simp_all add: update_new_def)








lemma enumerate_from_set:
  "(i, x) \<in> set (enumerate_from start xs) \<Longrightarrow> \<exists>k < length xs. i = start + int k \<and> x = xs ! k"
  by (auto simp: enumerate_from_def in_set_zip)






subsection \<open>The one-to-one assertion\<close>



subsection \<open>Groups, candidates and the nearest of them\<close>

lemma groupby_props:
  "(k, g) \<in> set (groupby key xs) \<Longrightarrow> g \<noteq> [] \<and> set g \<subseteq> set xs \<and> (\<forall>x \<in> set g. key x = k)"
proof (induction key xs rule: groupby.induct)
  case (1 key)
  then show ?case by simp
next
  case (2 key x xs)
  from "2.prems" consider
      (hd) "k = key x" "g = x # takeWhile (\<lambda>y. key y = key x) xs"
    | (tl) "(k, g) \<in> set (groupby key (dropWhile (\<lambda>y. key y = key x) xs))"
    by auto
  then show ?case
  proof cases
    case hd
    then show ?thesis by (auto dest: set_takeWhileD)
  next
    case tl
    then have "g \<noteq> [] \<and> set g \<subseteq> set (dropWhile (\<lambda>y. key y = key x) xs) \<and> (\<forall>x \<in> set g. key x = k)"
      by (rule "2.IH")
    then show ?thesis using set_dropWhileD by fastforce
  qed
qed







subsection \<open>The stages of the Resolver\<close>




























subsection \<open>The choice among equidistant candidates\<close>
















subsection \<open>Merge view\<close>

lemma sorted_run:
  assumes "sorted (map key (x # xs))"
  shows "takeWhile (\<lambda>y. key y = key x) xs = filter (\<lambda>y. key y = key x) xs
       \<and> dropWhile (\<lambda>y. key y = key x) xs = filter (\<lambda>y. key y \<noteq> key x) xs"
  using assms
proof (induction xs)
  case Nil
  then show ?case by simp
next
  case (Cons y ys)
  show ?case
  proof (cases "key y = key x")
    case True
    have "sorted (map key (x # ys))" using Cons.prems by simp
    then show ?thesis using Cons.IH True by simp
  next
    case False
    have "\<forall>z \<in> set ys. key y \<le> key z" "key x \<le> key y" using Cons.prems by auto
    then have "\<forall>z \<in> set ys. key z \<noteq> key x" using False by fastforce
    then show ?thesis using False by (simp add: filter_empty_conv)
  qed
qed

lemma sorted_map_filter: "sorted (map key xs) \<Longrightarrow> sorted (map key (filter P xs))"
  by (induction xs) auto

lemma groupby_sorted_keys:
  assumes "sorted (map key xs)"
  shows "distinct (map fst (groupby key xs))
       \<and> (\<forall>(k, g) \<in> set (groupby key xs). g = filter (\<lambda>y. key y = k) xs)"
  using assms
proof (induction key xs rule: groupby.induct)
  case (1 key)
  then show ?case by simp
next
  case (2 key x xs)
  let ?P = "\<lambda>y. key y = key x"
  from sorted_run [OF "2.prems"] have
    tw: "takeWhile ?P xs = filter ?P xs" and dw: "dropWhile ?P xs = filter (\<lambda>y. key y \<noteq> key x) xs"
    by blast+
  have s: "sorted (map key (dropWhile ?P xs))"
    unfolding dw using "2.prems" by (simp add: sorted_map_filter)
  from "2.IH" [OF s] have
    d: "distinct (map fst (groupby key (dropWhile ?P xs)))"
    and g: "\<forall>(k, g) \<in> set (groupby key (dropWhile ?P xs)). g = filter (\<lambda>y. key y = k) (dropWhile ?P xs)"
    by blast+
  have ne: "k \<noteq> key x" if "(k, g) \<in> set (groupby key (dropWhile ?P xs))" for k g
  proof -
    from groupby_props [OF that] obtain y where "y \<in> set (dropWhile ?P xs)" "key y = k"
      by (cases g) auto
    then show ?thesis unfolding dw by auto
  qed
  have "key x \<notin> fst ` set (groupby key (dropWhile ?P xs))"
  proof
    assume "key x \<in> fst ` set (groupby key (dropWhile ?P xs))"
    then obtain g where "(key x, g) \<in> set (groupby key (dropWhile ?P xs))" by force
    from ne [OF this] show False by simp
  qed
  then have 1: "distinct (map fst (groupby key (x # xs)))"
    using d by simp
  have 2: "g = filter (\<lambda>y. key y = k) (x # xs)" if m: "(k, g) \<in> set (groupby key (x # xs))" for k g
  proof -
    from m consider (hd) "k = key x" "g = x # takeWhile ?P xs"
      | (tl) "(k, g) \<in> set (groupby key (dropWhile ?P xs))"
      by auto
    then show ?thesis
    proof cases
      case hd
      then show ?thesis by (simp add: tw)
    next
      case tl
      from g tl have "g = filter (\<lambda>y. key y = k) (dropWhile ?P xs)" by blast
      then have 3: "g = filter (\<lambda>y. key y = k) (filter (\<lambda>y. key y \<noteq> key x) xs)"
        by (simp only: dw)
      have 4: "k \<noteq> key x" using ne tl by blast
      then have "filter (\<lambda>y. key y = k) (filter (\<lambda>y. key y \<noteq> key x) zs) = filter (\<lambda>y. key y = k) zs"
        for zs by (induction zs) auto
      then show ?thesis using 3 4 by simp
    qed
  qed
  from 1 2 show ?case by blast
qed

lemma groupby_keys: "fst ` set (groupby key xs) = key ` set xs"
proof (induction key xs rule: groupby.induct)
  case (1 key)
  then show ?case by simp
next
  case (2 key x xs)
  have "set xs = set (takeWhile (\<lambda>y. key y = key x) xs) \<union> set (dropWhile (\<lambda>y. key y = key x) xs)"
    by (metis set_append takeWhile_dropWhile_id)
  moreover have "key ` set (takeWhile (\<lambda>y. key y = key x) xs) \<subseteq> {key x}"
    by (auto dest: set_takeWhileD)
  ultimately show ?case using "2.IH" by auto
qed

lemma groupby_lookup:
  assumes "sorted (map key xs)" "filter (\<lambda>y. key y = k) xs \<noteq> []"
  shows "map_of (groupby key xs) k = Some (filter (\<lambda>y. key y = k) xs)"
proof -
  from assms(2) have "k \<in> key ` set xs" by (auto simp: filter_empty_conv)
  then have "k \<in> fst ` set (groupby key xs)" by (simp only: groupby_keys)
  then obtain g where m: "(k, g) \<in> set (groupby key xs)" by force
  then have "g = filter (\<lambda>y. key y = k) xs" using groupby_sorted_keys [OF assms(1)] by blast
  then show ?thesis using m groupby_sorted_keys [OF assms(1)] by (simp add: map_of_is_SomeI)
qed

lemma merged_fields_lookup:
  assumes "merged_fields un ign sep g acc = Inr d" "distinct (map fst g)"
  shows "map_of d f =
    (case map_of g f of
       None \<Rightarrow> map_of acc f
     | Some vs \<Rightarrow>
         if f \<in> ign then map_of acc f
         else if f \<in> un then Some (join sep (unique (map fst vs)))
         else (case vs of [] \<Rightarrow> None | (vl, _) # _ \<Rightarrow> Some vl))"
  using assms
proof (induction g arbitrary: acc)
  case Nil
  then show ?case by simp
next
  case (Cons p g)
  obtain field vs where p: "p = (field, vs)" by (cases p)
  have dg: "distinct (map fst g)" and nf: "field \<notin> fst ` set g" using Cons.prems(2) p by auto
  have none: "map_of g field = None" using nf by (simp add: map_of_eq_None_iff)
  consider (ign) "field \<in> ign" | (un) "field \<notin> ign" "field \<in> un"
    | (first) "field \<notin> ign" "field \<notin> un" by blast
  then show ?case
  proof cases
    case ign
    then have "merged_fields un ign sep g acc = Inr d" using Cons.prems(1) p by simp
    from Cons.IH [OF this dg] show ?thesis using ign p none by (auto split: option.splits)
  next
    case un
    let ?acc = "AList.update field (join sep (unique (map fst vs))) acc"
    have "merged_fields un ign sep g ?acc = Inr d" using Cons.prems(1) p un by simp
    from Cons.IH [OF this dg] show ?thesis
      using un p none by (auto simp: update_conv' split: option.splits)
  next
    case first
    then obtain vl rest where vs: "vs = (vl, rest) # tl vs"
      using Cons.prems(1) p by (cases vs) (auto split: list.splits)
    let ?acc = "AList.update field vl acc"
    have "merged_fields un ign sep g ?acc = Inr d"
      using Cons.prems(1) p first vs by (cases vs) (auto split: prod.splits)
    from Cons.IH [OF this dg] show ?thesis
      using first p none vs by (cases vs) (auto simp: update_conv' split: option.splits)
  qed
qed

lemma field_groups_map:
  "field_groups rows =
     map (\<lambda>(field, g). (field, map (\<lambda>r. (member_value r, fst (snd (snd r)), fst (snd (snd (snd r))))) g))
       (groupby fst rows)"
proof -
  have 1: "[(vl, filename, bibkey). (_, _, filename, bibkey, vl) \<leftarrow> g]
      = map (\<lambda>r. (member_value r, fst (snd (snd r)), fst (snd (snd (snd r))))) g" for g :: "value_join list"
    by (induction g) (auto simp: member_value_def)
  show ?thesis
    unfolding field_groups_def 1 by (induction "groupby fst rows") auto
qed

lemma insort_key_cong_on:
  assumes "\<forall>y \<in> set ys. (K x \<le> K y) = (M x \<le> M y)"
  shows "insort_key K x ys = insort_key M x ys"
  using assms by (induction ys) auto

lemma sort_key_cong_on:
  assumes "\<forall>x \<in> set xs. \<forall>y \<in> set xs. (K x \<le> K y) = (M x \<le> M y)"
  shows "sort_key K xs = sort_key M xs"
  using assms
proof (induction xs)
  case Nil
  then show ?case by simp
next
  case (Cons x xs)
  have ih: "sort_key K xs = sort_key M xs" using Cons by simp
  have "\<forall>y \<in> set (sort_key M xs). (K x \<le> K y) = (M x \<le> M y)"
    using Cons.prems by simp
  then have "insort_key K x (sort_key M xs) = insort_key M x (sort_key M xs)"
    by (rule insort_key_cong_on)
  then show ?case by (simp add: sort_key_simps ih)
qed

lemma order_by_fst: "order_by r \<le> order_by r' \<Longrightarrow> fst r \<le> fst r'"
  by (cases r, cases r') (auto simp: order_by_def less_eq_prod_def)

lemma order_by_member_order:
  "fst r = fst r' \<Longrightarrow> (order_by r \<le> order_by r') = (member_order r \<le> member_order r')"
  by (cases r, cases r') (auto simp: order_by_def member_order_def less_eq_prod_def less_prod_def)

lemma select_values_sorted_fields: "sorted (map fst (select_values d c))"
proof -
  have "sorted (map order_by (select_values d c))"
    by (simp add: select_values_def)
  then have "sorted_wrt (\<lambda>r r'. order_by r \<le> order_by r') (select_values d c)"
    by (simp add: sorted_wrt_map)
  then have "sorted_wrt (\<lambda>r r'. fst r \<le> fst r') (select_values d c)"
    by (rule sorted_wrt_mono_rel [rotated]) (rule order_by_fst)
  then show ?thesis by (simp add: sorted_wrt_map)
qed

lemma select_values_field:
  "filter (\<lambda>r. fst r = f) (select_values d c)
     = sort_key member_order (filter (\<lambda>r. fst r = f) (joined_values d c))"
proof -
  have "filter (\<lambda>r. fst r = f) (select_values d c)
      = sort_key order_by (filter (\<lambda>r. fst r = f) (joined_values d c))"
    by (simp add: select_values_def filter_sort)
  also have "\<dots> = sort_key member_order (filter (\<lambda>r. fst r = f) (joined_values d c))"
    by (rule sort_key_cong_on) (simp add: order_by_member_order)
  finally show ?thesis .
qed

lemma map_of_map_snd:
  "map_of (map (\<lambda>(k, v). (k, h v)) xs) k = map_option h (map_of xs k)"
  by (induction xs) auto

lemma field_groups_lookup:
  assumes "filter (\<lambda>r. fst r = f) (joined_values d c) \<noteq> []"
  shows "map_of (field_groups (select_values d c)) f
     = Some (map (\<lambda>r. (member_value r, fst (snd (snd r)), fst (snd (snd (snd r)))))
               (sort_key member_order (filter (\<lambda>r. fst r = f) (joined_values d c))))"
proof -
  let ?rows = "sort_key member_order (filter (\<lambda>r. fst r = f) (joined_values d c))"
  have "length (filter (\<lambda>r. fst r = f) (select_values d c))
      = length (filter (\<lambda>r. fst r = f) (joined_values d c))"
    by (simp only: select_values_field length_sort)
  then have ne: "filter (\<lambda>r. fst r = f) (select_values d c) \<noteq> []"
    using assms by (metis length_0_conv)
  from groupby_lookup [OF select_values_sorted_fields ne]
  show ?thesis
    by (simp add: field_groups_map map_of_map_snd select_values_field)
qed

lemma field_groups_distinct: "distinct (map fst (field_groups (select_values d c)))"
proof -
  have "map fst (field_groups (select_values d c)) = map fst (groupby fst (select_values d c))"
    by (simp add: field_groups_map case_prod_unfold comp_def)
  then show ?thesis
    using groupby_sorted_keys [OF select_values_sorted_fields, of d c] by simp
qed

lemma sort_key_hd_least:
  assumes "xs \<noteq> []"
  shows "hd (sort_key M xs) \<in> set xs \<and> (\<forall>y \<in> set xs. M (hd (sort_key M xs)) \<le> M y)"
proof -
  let ?s = "sort_key M xs"
  have ne: "?s \<noteq> []" using assms by (metis length_sort length_0_conv)
  then obtain z zs where s: "?s = z # zs" by (cases ?s) auto
  have "sorted (map M ?s)" by simp
  then have "\<forall>y \<in> set ?s. M z \<le> M y" unfolding s by auto
  moreover have "z \<in> set ?s" using s by simp
  moreover have "set ?s = set xs" by simp
  ultimately have "z \<in> set xs \<and> (\<forall>y \<in> set xs. M z \<le> M y)" by blast
  then show ?thesis by (simp add: s)
qed

text \<open>
  C5. In the merge view of a key, for a field other than the two provenance fields that
  some member has: an ignored field is absent; a union field holds the values of the
  members in the order of descending file priority, file name and bibkey, each value where
  it first occurs, joined with a comma and a blank; and every other field holds the value
  of the member that is first in that order.
\<close>

theorem merged_entrygrp_field:
  assumes "merged_entrygrp d k = Inr view"
    and "rows = filter (\<lambda>r. fst r = f) (joined_values d (key_matches k))" "rows \<noteq> []"
    and "f \<noteq> ''src''" "f \<noteq> ''srctrickle''"
  shows "(f \<in> IGNORE_FIELDS \<longrightarrow> map_of view f = None)
    \<and> (f \<in> UNION_FIELDS \<longrightarrow>
          map_of view f
            = Some (join '', '' (unique (map member_value (sort_key member_order rows)))))
    \<and> (f \<notin> IGNORE_FIELDS \<and> f \<notin> UNION_FIELDS \<longrightarrow>
          (\<exists>r \<in> set rows. map_of view f = Some (member_value r)
              \<and> (\<forall>r' \<in> set rows. member_order r \<le> member_order r')))"
proof -
  let ?g = "field_groups (select_values d (key_matches k))"
  let ?proj = "\<lambda>r. (member_value r, fst (snd (snd r)), fst (snd (snd (snd r))))"
  let ?s = "sort_key member_order rows"
  from assms(1) obtain d0 where
    d0: "merged_fields UNION_FIELDS IGNORE_FIELDS '', '' ?g [] = Inr d0"
    and view: "view = AList.update ''srctrickle'' (join '', '' (srctrickle_of ?g))
                (AList.update ''src'' (join '', '' (src_of ?g)) d0)"
    by (auto simp: merged_entrygrp_def merged_entry_raw_def Let_def split: if_splits sum.splits)
  have v: "map_of view f = map_of d0 f"
    using assms(4,5) by (simp add: view update_conv')
  have look: "map_of ?g f = Some (map ?proj ?s)"
    using field_groups_lookup [of f d "key_matches k"] assms(2,3) by simp
  have ne: "?s \<noteq> []" using assms(3) by (metis length_sort length_0_conv)
  then obtain z zs where s: "?s = z # zs" by (cases ?s) auto
  have m: "map_of d0 f =
      (if f \<in> IGNORE_FIELDS then None
       else if f \<in> UNION_FIELDS then Some (join '', '' (unique (map fst (map ?proj ?s))))
       else Some (member_value z))"
    using merged_fields_lookup [OF d0 field_groups_distinct, of f]
    by (simp add: look) (simp add: s)
  have u: "map fst (map ?proj ?s) = map member_value ?s" by simp
  have m': "map_of d0 f =
      (if f \<in> IGNORE_FIELDS then None
       else if f \<in> UNION_FIELDS then Some (join '', '' (unique (map member_value ?s)))
       else Some (member_value z))"
    using m by (simp only: u)
  have z: "z \<in> set rows \<and> (\<forall>y \<in> set rows. member_order z \<le> member_order y)"
    using sort_key_hd_least [OF assms(3), of member_order] s by simp
  have disj: "f \<in> UNION_FIELDS \<Longrightarrow> f \<notin> IGNORE_FIELDS"
    by (auto simp: UNION_FIELDS_def IGNORE_FIELDS_def)
  have 1: "f \<in> IGNORE_FIELDS \<longrightarrow> map_of view f = None"
    by (simp add: v m')
  have 2: "f \<in> UNION_FIELDS \<longrightarrow>
      map_of view f = Some (join '', '' (unique (map member_value ?s)))"
    using disj by (simp add: v m')
  have 3: "f \<notin> IGNORE_FIELDS \<and> f \<notin> UNION_FIELDS \<longrightarrow>
      (\<exists>r \<in> set rows. map_of view f = Some (member_value r)
          \<and> (\<forall>r' \<in> set rows. member_order r \<le> member_order r'))"
  proof
    assume "f \<notin> IGNORE_FIELDS \<and> f \<notin> UNION_FIELDS"
    then have "map_of view f = Some (member_value z)" by (simp add: v m')
    then show "\<exists>r \<in> set rows. map_of view f = Some (member_value r)
          \<and> (\<forall>r' \<in> set rows. member_order r \<le> member_order r')"
      using z by blast
  qed
  from 1 2 3 show ?thesis by (intro conjI)
qed

lemma ex_union_run: "merged_entrygrp ex_union (Hash ''h'') = Inr ex_union_view"
  by code_simp

theorem merged_entrygrp_field_witness:
  "merged_entrygrp ex_union (Hash ''h'') = Inr ex_union_view
   \<and> map_of ex_union_view ''crossref'' = None
   \<and> map_of ex_union_view ''isbn''
       = Some (join '', '' (unique (map member_value (sort_key member_order
           (filter (\<lambda>r. fst r = ''isbn'') (joined_values ex_union (key_matches (Hash ''h''))))))))
   \<and> (\<exists>r \<in> set (filter (\<lambda>r. fst r = ''title'') (joined_values ex_union (key_matches (Hash ''h'')))).
         map_of ex_union_view ''title'' = Some (member_value r)
         \<and> (\<forall>r' \<in> set (filter (\<lambda>r. fst r = ''title'') (joined_values ex_union (key_matches (Hash ''h'')))).
               member_order r \<le> member_order r'))
   \<and> map_of ex_union_view ''title'' = Some ''First''"
proof -
  have ne: "filter (\<lambda>r. fst r = ''crossref'') (joined_values ex_union (key_matches (Hash ''h''))) \<noteq> []"
    "filter (\<lambda>r. fst r = ''isbn'') (joined_values ex_union (key_matches (Hash ''h''))) \<noteq> []"
    "filter (\<lambda>r. fst r = ''title'') (joined_values ex_union (key_matches (Hash ''h''))) \<noteq> []"
    by code_simp+
  have 1: "map_of ex_union_view ''crossref'' = None"
    using merged_entrygrp_field [OF ex_union_run refl ne(1)] by (simp add: IGNORE_FIELDS_def)
  have 2: "map_of ex_union_view ''isbn''
       = Some (join '', '' (unique (map member_value (sort_key member_order
           (filter (\<lambda>r. fst r = ''isbn'') (joined_values ex_union (key_matches (Hash ''h''))))))))"
    using merged_entrygrp_field [OF ex_union_run refl ne(2)] by (simp add: UNION_FIELDS_def)
  have 3: "\<exists>r \<in> set (filter (\<lambda>r. fst r = ''title'') (joined_values ex_union (key_matches (Hash ''h'')))).
         map_of ex_union_view ''title'' = Some (member_value r)
         \<and> (\<forall>r' \<in> set (filter (\<lambda>r. fst r = ''title'') (joined_values ex_union (key_matches (Hash ''h'')))).
               member_order r \<le> member_order r')"
    using merged_entrygrp_field [OF ex_union_run refl ne(3)]
    by (simp add: UNION_FIELDS_def IGNORE_FIELDS_def)
  have 4: "map_of ex_union_view ''title'' = Some ''First''" by (simp add: ex_union_view_def)
  from ex_union_run 1 2 3 4 show ?thesis by (intro conjI)
qed

text \<open>
  The union field \<^verbatim>\<open>isbn\<close> of two members, \<open>z\<close> from the file of the higher
  priority and \<open>a\<close> from the other, is \<open>z, a\<close>: the values are not sorted.
\<close>

theorem union_field_order_counterexample:
  "merged_entrygrp ex_union (Hash ''h'') = Inr ex_union_view
   \<and> map_of ex_union_view ''isbn'' = Some ''z, a''
   \<and> join '', '' (sort [''z'', ''a'']) = ''a, z''"
proof (intro conjI)
  show "merged_entrygrp ex_union (Hash ''h'') = Inr ex_union_view" by (rule ex_union_run)
  show "map_of ex_union_view ''isbn'' = Some ''z, a''" by (simp add: ex_union_view_def)
  show "join '', '' (sort [''z'', ''a'']) = ''a, z''" by code_simp
qed

end
